theory Spec2Isabelle
  imports Complex_Main "HOL-Library.Word" "HOL-Library.Sublist" "HOL-Library.Monad_Syntax"
begin

section \<open>Shared types (types.ts)\<close>

text \<open>
  JavaScript strings are modelled as HOL strings (lists of 8-bit characters). Optional
  fields (\<open>name?\<close>, \<open>isError?\<close>, \<open>attachments?\<close>) are options: \<open>None\<close> is
  \<open>undefined\<close>.
\<close>

record attachment =
  mimeType :: string
  data :: string
  name :: "string option"

datatype AppMode = Chat | Thinking | Maps | Image | Video | Fast | Tts | Live

record GenerationConfig =
  aspectRatio :: "string option"
  imageSize :: "string option"
  resolution :: "string option"

datatype role = User | Model

record message =
  msg_id :: string
  msg_role :: role
  content :: string
  timestamp :: nat
  isStreaming :: "bool option"
  isError :: "bool option"
  attachments :: "attachment list option"
  generatedImage :: "string option"
  generatedVideo :: "string option"
  audioData :: "string option"

section \<open>Constants of the service module (geminiService.ts)\<close>

definition CHAT_MODEL :: string where "CHAT_MODEL = ''gemini-3-pro-preview''"
definition THINKING_MODEL :: string where "THINKING_MODEL = ''gemini-3-pro-preview''"
definition MAPS_MODEL :: string where "MAPS_MODEL = ''gemini-2.5-flash''"
definition FAST_MODEL :: string where "FAST_MODEL = ''gemini-2.5-flash-lite''"
definition AUDIO_MODEL :: string where "AUDIO_MODEL = ''gemini-2.5-flash''"
definition VIDEO_GEN_MODEL :: string where "VIDEO_GEN_MODEL = ''veo-3.1-fast-generate-preview''"

section \<open>Error normalizer: mapError\<close>

text \<open>
  A raw error is an object whose \<open>message\<close> property is a string or is absent. The
  result of \<open>mapError\<close> is a fresh \<open>Error\<close> carrying a message.
\<close>

datatype raw_error = RawError (message: "string option")

datatype js_error = Error (error_message: string)

text \<open>
  \<open>String.prototype.toLowerCase\<close> on 8-bit characters: the letters A to Z are mapped to
  a to z. The search strings of \<open>mapError\<close> are made of ASCII digits and lower-case
  letters only.
\<close>

definition lower_char :: "char \<Rightarrow> char" where
  "lower_char c =
     (case map_of (zip ''ABCDEFGHIJKLMNOPQRSTUVWXYZ'' ''abcdefghijklmnopqrstuvwxyz'') c of
        None \<Rightarrow> c
      | Some l \<Rightarrow> l)"

definition toLowerCase :: "string \<Rightarrow> string" where
  "toLowerCase s = map lower_char s"

text \<open>\<open>s.includes(n)\<close>: does \<open>n\<close> occur in \<open>s\<close> as a contiguous substring?\<close>

fun str_includes :: "string \<Rightarrow> string \<Rightarrow> bool" where
  "str_includes [] n = (n = [])"
| "str_includes (c # cs) n = (prefix n (c # cs) \<or> str_includes cs n)"

text \<open>\<open>s.startsWith(p)\<close>\<close>

definition startsWith :: "string \<Rightarrow> string \<Rightarrow> bool" where
  "startsWith s p = (take (length p) s = p)"

definition mapError :: "raw_error \<Rightarrow> js_error" where
  "mapError error =
     (let msg = (case message error of None \<Rightarrow> [] | Some m \<Rightarrow> toLowerCase m) in
      if str_includes msg ''429'' \<or> str_includes msg ''exhausted''
      then Error ''Rate limit exceeded. Try again later.''
      else if str_includes msg ''safety'' then Error ''Content blocked by safety settings.''
      else Error (case message error of
                    None \<Rightarrow> ''An unexpected error occurred.''
                  | Some m \<Rightarrow> if m = [] then ''An unexpected error occurred.'' else m))"

text \<open>
  The wording of the specification: a message contains an indication case-insensitively
  when some contiguous piece of it equals the indication up to letter case.
\<close>

definition contains_ci :: "string \<Rightarrow> string \<Rightarrow> bool" where
  "contains_ci s needle = (\<exists>w. sublist w s \<and> toLowerCase w = toLowerCase needle)"

definition message_contains_ci :: "raw_error \<Rightarrow> string \<Rightarrow> bool" where
  "message_contains_ci error needle =
     (case message error of None \<Rightarrow> False | Some m \<Rightarrow> contains_ci m needle)"

section \<open>History mapping: mapMessagesToHistory\<close>

datatype part = TextPart string | InlineData string string

record history_content =
  role :: role
  parts :: "part list"

definition inlineParts :: "attachment list \<Rightarrow> part list" where
  "inlineParts atts = map (\<lambda>att. InlineData (mimeType att) (data att)) atts"

definition messageToContent :: "message \<Rightarrow> history_content" where
  "messageToContent msg =
     \<lparr> role = msg_role msg,
       parts = (if content msg \<noteq> [] then [TextPart (content msg)] else [])
               @ (case attachments msg of None \<Rightarrow> [] | Some atts \<Rightarrow> inlineParts atts) \<rparr>"

definition mapMessagesToHistory :: "message list \<Rightarrow> history_content list" where
  "mapMessagesToHistory messages =
     map messageToContent
       (filter (\<lambda>msg. content msg \<noteq> [] \<or>
                       (case attachments msg of None \<Rightarrow> False | Some atts \<Rightarrow> length atts > 0))
          (filter (\<lambda>msg. isError msg \<noteq> Some True) messages))"

text \<open>
  What a reader of the transmitted history sees of one entry, and what the same view of a
  stored message is: the role, the text and the (MIME type, payload) pairs in order.
\<close>

fun partsText :: "part list \<Rightarrow> string" where
  "partsText [] = []"
| "partsText (TextPart t # ps) = t @ partsText ps"
| "partsText (InlineData m d # ps) = partsText ps"

fun partsInline :: "part list \<Rightarrow> (string \<times> string) list" where
  "partsInline [] = []"
| "partsInline (TextPart t # ps) = partsInline ps"
| "partsInline (InlineData m d # ps) = (m, d) # partsInline ps"

definition contentView :: "history_content \<Rightarrow> role \<times> string \<times> (string \<times> string) list" where
  "contentView c = (role c, partsText (parts c), partsInline (parts c))"

definition attachmentsOf :: "message \<Rightarrow> attachment list" where
  "attachmentsOf msg = (case attachments msg of None \<Rightarrow> [] | Some atts \<Rightarrow> atts)"

definition messageView :: "message \<Rightarrow> role \<times> string \<times> (string \<times> string) list" where
  "messageView msg =
     (msg_role msg, content msg, map (\<lambda>att. (mimeType att, data att)) (attachmentsOf msg))"

definition transmitted :: "message \<Rightarrow> bool" where
  "transmitted msg =
     (isError msg \<noteq> Some True \<and> \<not> (content msg = [] \<and> attachmentsOf msg = []))"

section \<open>Streaming pathway: streamResponse\<close>

datatype tool = GoogleMaps

record chat_config =
  systemInstruction :: string
  thinkingConfig :: "nat option"
  tools :: "tool list"

record chat_request =
  reqModel :: string
  reqHistory :: "history_content list"
  reqConfig :: chat_config
  reqMessage :: "part list"

text \<open>The block "Determine Model and Config based on Mode" of \<open>streamResponse\<close>.\<close>

definition selectModel :: "AppMode \<Rightarrow> attachment list \<Rightarrow> string \<times> chat_config" where
  "selectModel mode atts =
     (let config = \<lparr> systemInstruction = ''You are Aira, a sophisticated AI assistant. Use Markdown.'',
                      thinkingConfig = None, tools = [] \<rparr> in
      if mode = Thinking then (THINKING_MODEL, config\<lparr> thinkingConfig := Some 32768 \<rparr>)
      else if mode = Fast then (FAST_MODEL, config)
      else if mode = Maps then (MAPS_MODEL, config\<lparr> tools := [GoogleMaps] \<rparr>)
      else if length atts > 0 then
        (if list_ex (\<lambda>a. startsWith (mimeType a) ''audio/'') atts then (AUDIO_MODEL, config)
         else (CHAT_MODEL, config))
      else (CHAT_MODEL, config))"

text \<open>
  The stream returned by \<open>sendMessageStream\<close> is a list of events: a chunk with its
  optional text, or a failure raised while the next chunk is awaited. The end of the list
  is the end of the stream.

  The cancellation signal is optional. Its \<open>aborted\<close> flag changes with time: it is read
  as a function of the number of stream events consumed so far.
\<close>

datatype stream_event = Chunk "string option" | StreamError raw_error

definition aborted :: "(nat \<Rightarrow> bool) option \<Rightarrow> nat \<Rightarrow> bool" where
  "aborted signal i = (case signal of None \<Rightarrow> False | Some ab \<Rightarrow> ab i)"

text \<open>
  The \<open>for await\<close> loop with the \<open>catch\<close> clause around it. The result is what
  \<open>streamResponse\<close> returns (\<open>Inr\<close>) or throws (\<open>Inl\<close>), with the texts passed to
  \<open>onChunk\<close>, oldest first.
\<close>

fun consumeStream ::
  "(nat \<Rightarrow> bool) option \<Rightarrow> nat \<Rightarrow> stream_event list \<Rightarrow> string \<Rightarrow> string list
     \<Rightarrow> (js_error + string) \<times> string list" where
  "consumeStream signal i [] fullText calls = (Inr fullText, calls)"
| "consumeStream signal i (StreamError e # rest) fullText calls =
     (if aborted signal i then (Inr [], calls) else (Inl (mapError e), calls))"
| "consumeStream signal i (Chunk text # rest) fullText calls =
     (if aborted signal i then (Inr fullText, calls)
      else (case text of
              None \<Rightarrow> consumeStream signal (Suc i) rest fullText calls
            | Some t \<Rightarrow>
                if t \<noteq> [] then consumeStream signal (Suc i) rest (fullText @ t) (calls @ [t])
                else consumeStream signal (Suc i) rest fullText calls))"

record stream_result =
  request :: chat_request
  outcome :: "js_error + string"
  onChunkCalls :: "string list"

text \<open>
  \<open>backend\<close> is the remote service: for the request built by \<open>streamResponse\<close> it either
  fails to open the stream or yields the stream's events.
\<close>

definition streamResponse ::
  "(chat_request \<Rightarrow> raw_error + stream_event list) \<Rightarrow> message list \<Rightarrow> string
     \<Rightarrow> attachment list \<Rightarrow> AppMode \<Rightarrow> (nat \<Rightarrow> bool) option \<Rightarrow> stream_result" where
  "streamResponse backend history newMessage atts mode signal =
     (let formattedHistory = mapMessagesToHistory history;
          (model, config) = selectModel mode atts;
          currentParts = (if newMessage \<noteq> [] then [TextPart newMessage] else []) @ inlineParts atts;
          req = \<lparr> reqModel = model, reqHistory = formattedHistory, reqConfig = config,
                  reqMessage = currentParts \<rparr>
      in case backend req of
           Inl e \<Rightarrow>
             \<lparr> request = req,
               outcome = (if aborted signal 0 then Inr [] else Inl (mapError e)),
               onChunkCalls = [] \<rparr>
         | Inr events \<Rightarrow>
             (let (res, calls) = consumeStream signal 0 events [] []
              in \<lparr> request = req, outcome = res, onChunkCalls = calls \<rparr>))"

text \<open>The text a chunk contributes: nothing when \<open>chunk.text\<close> is undefined.\<close>

definition chunkText :: "string option \<Rightarrow> string" where
  "chunkText text = (case text of None \<Rightarrow> [] | Some t \<Rightarrow> t)"

text \<open>The configuration every mode starts from, and the audio test on the attachments.\<close>

definition defaultConfig :: chat_config where
  "defaultConfig = \<lparr> systemInstruction = ''You are Aira, a sophisticated AI assistant. Use Markdown.'',
                      thinkingConfig = None, tools = [] \<rparr>"

definition hasAudio :: "attachment list \<Rightarrow> bool" where
  "hasAudio atts = list_ex (\<lambda>a. startsWith (mimeType a) ''audio/'') atts"

text \<open>
  The service's answer fails at time \<open>k\<close> with \<open>e\<close>: the call itself is rejected
  (time 0), or the stream's event number \<open>k\<close> is the failure \<open>e\<close>.
\<close>

definition failureAt :: "raw_error + stream_event list \<Rightarrow> nat \<Rightarrow> raw_error \<Rightarrow> bool" where
  "failureAt answer k e =
     (case answer of
        Inl e' \<Rightarrow> k = 0 \<and> e' = e
      | Inr events \<Rightarrow> k < length events \<and> events ! k = StreamError e)"

section \<open>Audio codec: PCM to WAV container (base64PCMToWav)\<close>

type_synonym byte = "8 word"

text \<open>
  A \<open>DataView\<close> over an \<open>ArrayBuffer\<close> is a list of bytes. A write outside the buffer
  throws a \<open>RangeError\<close>: the result is \<open>None\<close>. Numbers written are integers; the
  setters store them modulo the width of the field (\<open>ToUint8\<close>, \<open>ToUint16\<close>,
  \<open>ToUint32\<close>).
\<close>

definition setBytes :: "byte list \<Rightarrow> nat \<Rightarrow> byte list \<Rightarrow> byte list option" where
  "setBytes view byteOffset bs =
     (if byteOffset + length bs \<le> length view
      then Some (take byteOffset view @ bs @ drop (byteOffset + length bs) view)
      else None)"

definition setUint8 :: "byte list \<Rightarrow> nat \<Rightarrow> int \<Rightarrow> byte list option" where
  "setUint8 view byteOffset v = setBytes view byteOffset [of_nat (nat (v mod 256))]"

text \<open>The bytes of an unsigned field, least significant first.\<close>

definition uint16Bytes :: "int \<Rightarrow> byte list" where
  "uint16Bytes v =
     (let m = nat (v mod 65536) in [of_nat (m mod 256), of_nat (m div 256 mod 256)])"

definition uint32Bytes :: "int \<Rightarrow> byte list" where
  "uint32Bytes v =
     (let m = nat (v mod 4294967296)
      in [of_nat (m mod 256), of_nat (m div 256 mod 256),
          of_nat (m div 65536 mod 256), of_nat (m div 16777216 mod 256)])"

definition setUint16 :: "byte list \<Rightarrow> nat \<Rightarrow> int \<Rightarrow> bool \<Rightarrow> byte list option" where
  "setUint16 view byteOffset v littleEndian =
     setBytes view byteOffset (if littleEndian then uint16Bytes v else rev (uint16Bytes v))"

definition setUint32 :: "byte list \<Rightarrow> nat \<Rightarrow> int \<Rightarrow> bool \<Rightarrow> byte list option" where
  "setUint32 view byteOffset v littleEndian =
     setBytes view byteOffset (if littleEndian then uint32Bytes v else rev (uint32Bytes v))"

fun writeString :: "byte list \<Rightarrow> nat \<Rightarrow> string \<Rightarrow> byte list option" where
  "writeString view offset [] = Some view"
| "writeString view offset (c # cs) =
     (case setUint8 view offset (of_char c) of
        None \<Rightarrow> None
      | Some view' \<Rightarrow> writeString view' (Suc offset) cs)"

text \<open>
  \<open>base64PCMToWav\<close>, from the result of \<open>atob(base64Pcm)\<close> on: a binary string, one
  character per byte. \<open>new Int16Array(bytes.buffer)\<close> throws a \<open>RangeError\<close> when the
  byte length is odd. The result is the content of the blob: the 44 bytes of the view
  followed by the bytes of \<open>pcmData\<close>.
\<close>

definition base64PCMToWav :: "string \<Rightarrow> int \<Rightarrow> byte list option" where
  "base64PCMToWav binaryString sampleRate =
     (let bytes = (map of_char binaryString :: byte list) in
      if odd (length bytes) then None
      else
        let byteLength = int (length bytes);
            numChannels = 1;
            byteRate = sampleRate * numChannels * 2;
            blockAlign = numChannels * 2
        in do {
          view \<leftarrow> writeString (replicate 44 0) 0 ''RIFF'';
          view \<leftarrow> setUint32 view 4 (36 + byteLength) True;
          view \<leftarrow> writeString view 8 ''WAVE'';
          view \<leftarrow> writeString view 12 ''fmt '';
          view \<leftarrow> setUint32 view 16 16 True;
          view \<leftarrow> setUint16 view 20 1 True;
          view \<leftarrow> setUint16 view 22 numChannels True;
          view \<leftarrow> setUint32 view 24 sampleRate True;
          view \<leftarrow> setUint32 view 28 byteRate True;
          view \<leftarrow> setUint16 view 32 blockAlign True;
          view \<leftarrow> setUint16 view 34 16 True;
          view \<leftarrow> writeString view 36 ''data'';
          view \<leftarrow> setUint32 view 40 byteLength True;
          Some (view @ bytes)
        })"

text \<open>Reading a container back, as a player does: unsigned fields and ASCII tags.\<close>

definition getUint16 :: "byte list \<Rightarrow> nat \<Rightarrow> bool \<Rightarrow> nat option" where
  "getUint16 view byteOffset littleEndian =
     (if byteOffset + 2 \<le> length view
      then (let bs = take 2 (drop byteOffset view);
                le = (if littleEndian then bs else rev bs)
            in Some (unat (le ! 0) + 256 * unat (le ! 1)))
      else None)"

definition getUint32 :: "byte list \<Rightarrow> nat \<Rightarrow> bool \<Rightarrow> nat option" where
  "getUint32 view byteOffset littleEndian =
     (if byteOffset + 4 \<le> length view
      then (let bs = take 4 (drop byteOffset view);
                le = (if littleEndian then bs else rev bs)
            in Some (unat (le ! 0) + 256 * unat (le ! 1) + 65536 * unat (le ! 2)
                     + 16777216 * unat (le ! 3)))
      else None)"

definition readTag :: "byte list \<Rightarrow> nat \<Rightarrow> byte list" where
  "readTag view byteOffset = take 4 (drop byteOffset view)"

definition tagBytes :: "string \<Rightarrow> byte list" where
  "tagBytes s = map of_char s"

text \<open>
  The canonical minimal WAV layout for mono 16-bit linear PCM, as the specification
  describes it: the RIFF chunk, the format sub-chunk and the head of the data sub-chunk.
\<close>

definition wavHeader :: "nat \<Rightarrow> int \<Rightarrow> byte list" where
  "wavHeader payloadByteLength rate =
     tagBytes ''RIFF'' @ uint32Bytes (36 + int payloadByteLength) @ tagBytes ''WAVE'' @
     tagBytes ''fmt '' @ uint32Bytes 16 @ uint16Bytes 1 @ uint16Bytes 1 @
     uint32Bytes rate @ uint32Bytes (rate * 2) @ uint16Bytes 2 @ uint16Bytes 16 @
     tagBytes ''data'' @ uint32Bytes (int payloadByteLength)"

section \<open>Audio codec: float samples and Int16 samples\<close>

text \<open>
  Samples are real numbers: the product of a Float32 sample with 32767 and the quotient of
  an Int16 sample by 32768 are exact in double precision. A store into an \<open>Int16Array\<close>
  truncates the number towards zero and wraps it modulo \<open>2^16\<close> into the signed range.
\<close>

definition trunc :: "real \<Rightarrow> int" where
  "trunc r = (if r < 0 then \<lceil>r\<rceil> else \<lfloor>r\<rfloor>)"

definition toInt16 :: "real \<Rightarrow> int" where
  "toInt16 r = (trunc r + 32768) mod 65536 - 32768"

text \<open>\<open>pcm16[i] = inputData[i] * 0x7FFF\<close> in \<open>startAudioInput\<close>.\<close>

definition encodeSample :: "real \<Rightarrow> int" where
  "encodeSample x = toInt16 (x * 32767)"

text \<open>\<open>channelData[i] = int16[i] / 32768.0\<close> in \<open>playAudio\<close>.\<close>

definition decodeSample :: "int \<Rightarrow> real" where
  "decodeSample n = real_of_int n / 32768"

text \<open>The elements of an \<open>Int16Array\<close> over a byte buffer (little-endian platform).\<close>

fun int16Samples :: "byte list \<Rightarrow> int list" where
  "int16Samples (lo # hi # rest) =
     (let u = uint lo + 256 * uint hi in (if u \<ge> 32768 then u - 65536 else u))
       # int16Samples rest"
| "int16Samples bs = []"

section \<open>Real-time voice session: LiveClient\<close>

datatype status = Connected | Disconnected | ErrorStatus

record audio_context =
  ctx_sampleRate :: nat
  ctx_closed :: bool

record scheduled_buffer =
  startTime :: real
  duration :: real
  channelData :: "real list"

text \<open>
  The fields of the class, and what the session does to the outside: the calls of
  \<open>onStatusChange\<close>, the buffers handed to \<open>source.start\<close> and the frames handed to
  \<open>sendRealtimeInput\<close>, each oldest first, and the number of calls of
  \<open>session.close\<close>. Times are in seconds, as exact reals.
\<close>

record LiveClient =
  session :: bool
  inputContext :: "audio_context option"
  outputContext :: "audio_context option"
  inputSource :: "bool option"
  processor :: "bool option"
  nextStartTime :: real
  statusLog :: "status list"
  started :: "scheduled_buffer list"
  sentFrames :: "int list list"
  sessionCloseCalls :: nat

definition newLiveClient :: LiveClient where
  "newLiveClient =
     \<lparr> session = False, inputContext = None, outputContext = None, inputSource = None,
       processor = None, nextStartTime = 0, statusLog = [], started = [], sentFrames = [],
       sessionCloseCalls = 0 \<rparr>"

definition onStatusChange :: "status \<Rightarrow> LiveClient \<Rightarrow> LiveClient" where
  "onStatusChange s c = c\<lparr> statusLog := statusLog c @ [s] \<rparr>"

definition startAudioInput :: "LiveClient \<Rightarrow> LiveClient" where
  "startAudioInput c =
     (case inputContext c of
        None \<Rightarrow> c
      | Some ctx \<Rightarrow> c\<lparr> inputSource := Some True, processor := Some True \<rparr>)"

text \<open>
  \<open>playAudio\<close> on the result of \<open>atob(base64)\<close>, with the playback clock's
  \<open>currentTime\<close> read at the call. \<open>None\<close> is an exception (an odd byte length for
  the \<open>Int16Array\<close>, a buffer of no sample for \<open>createBuffer\<close>): nothing is scheduled.
\<close>

definition playAudio :: "string \<Rightarrow> real \<Rightarrow> LiveClient \<Rightarrow> LiveClient option" where
  "playAudio binaryString currentTime c =
     (case outputContext c of
        None \<Rightarrow> Some c
      | Some ctx \<Rightarrow>
          (let bytes = (map of_char binaryString :: byte list) in
           if odd (length bytes) then None
           else
             let int16 = int16Samples bytes in
             if length int16 = 0 then None
             else
               let audioBuffer = map decodeSample int16;
                   bufferDuration = real (length int16) / 24000;
                   start = (if nextStartTime c < currentTime then currentTime
                            else nextStartTime c)
               in Some (c\<lparr> started := started c @
                               [\<lparr> startTime = start, duration = bufferDuration,
                                  channelData = audioBuffer \<rparr>],
                            nextStartTime := start + bufferDuration \<rparr>)))"

definition disconnect :: "LiveClient \<Rightarrow> LiveClient" where
  "disconnect c =
     onStatusChange Disconnected
       (c\<lparr> sessionCloseCalls := (if session c then Suc (sessionCloseCalls c)
                                  else sessionCloseCalls c),
            inputSource := map_option (\<lambda>_. False) (inputSource c),
            processor := map_option (\<lambda>_. False) (processor c),
            inputContext := map_option (\<lambda>ctx. ctx\<lparr> ctx_closed := True \<rparr>) (inputContext c),
            outputContext := map_option (\<lambda>ctx. ctx\<lparr> ctx_closed := True \<rparr>) (outputContext c) \<rparr>)"

text \<open>
  What happens to a client, one event at a time: the steps of \<open>connect\<close> (entering it,
  an exception caught by its \<open>catch\<close>, the session promise resolving), the four
  transport callbacks, a captured frame, and a call of \<open>disconnect\<close>. A message
  carries its decoded audio payload (the result of \<open>atob\<close>), or \<open>None\<close> when it
  has no audio part, with the playback clock's time at its arrival. An exception thrown
  by \<open>playAudio\<close> rejects the promise of the callback and changes nothing. A frame is
  captured only while the processor node made by \<open>startAudioInput\<close> is connected.
\<close>

datatype live_event =
    ConnectCalled
  | ConnectCaught
  | SessionResolved
  | OnOpen
  | OnMessage "string option" real
  | OnClose
  | OnError
  | OnAudioProcess "real list"
  | DisconnectCalled

fun handle :: "live_event \<Rightarrow> LiveClient \<Rightarrow> LiveClient" where
  "handle ConnectCalled c =
     c\<lparr> inputContext := Some \<lparr> ctx_sampleRate = 16000, ctx_closed = False \<rparr>,
        outputContext := Some \<lparr> ctx_sampleRate = 24000, ctx_closed = False \<rparr> \<rparr>"
| "handle ConnectCaught c = onStatusChange ErrorStatus c"
| "handle SessionResolved c = c\<lparr> session := True \<rparr>"
| "handle OnOpen c = startAudioInput (onStatusChange Connected c)"
| "handle (OnMessage audio currentTime) c =
     (case audio of
        None \<Rightarrow> c
      | Some binaryString \<Rightarrow>
          (case playAudio binaryString currentTime c of None \<Rightarrow> c | Some c' \<Rightarrow> c'))"
| "handle OnClose c = onStatusChange Disconnected c"
| "handle OnError c = onStatusChange ErrorStatus c"
| "handle (OnAudioProcess inputData) c =
     (if processor c = Some True
      then c\<lparr> sentFrames := sentFrames c @ [map encodeSample inputData] \<rparr>
      else c)"
| "handle DisconnectCalled c = disconnect c"

fun run :: "LiveClient \<Rightarrow> live_event list \<Rightarrow> LiveClient" where
  "run c [] = c"
| "run c (e # es) = run (handle e c) es"

definition terminal :: "status \<Rightarrow> bool" where
  "terminal s = (s = Disconnected \<or> s = ErrorStatus)"

definition terminalEvent :: "live_event \<Rightarrow> bool" where
  "terminalEvent e = (e = ConnectCaught \<or> e = OnClose \<or> e = OnError \<or> e = DisconnectCalled)"

definition endTime :: "scheduled_buffer \<Rightarrow> real" where
  "endTime b = startTime b + duration b"

text \<open>
  A payload that \<open>playAudio\<close> schedules (a whole number of samples, at least one), the
  duration of its buffer at 24000 samples per second, and the timing of a scheduled
  buffer.
\<close>

definition validPayload :: "string \<Rightarrow> bool" where
  "validPayload binaryString = (even (length binaryString) \<and> 2 \<le> length binaryString)"

definition bufferDuration :: "string \<Rightarrow> real" where
  "bufferDuration binaryString = real (length binaryString div 2) / 24000"

definition timing :: "scheduled_buffer \<Rightarrow> real \<times> real" where
  "timing b = (startTime b, duration b)"

text \<open>
  The invariant of the schedule: no buffer starts before an earlier one ends, and the
  cursor is not before the end of any scheduled buffer.
\<close>

definition scheduleInv :: "LiveClient \<Rightarrow> bool" where
  "scheduleInv c =
     (sorted_wrt (\<lambda>a b. endTime a \<le> startTime b) (started c) \<and>
      (\<forall>b \<in> set (started c). endTime b \<le> nextStartTime c))"

section \<open>Video operation poller: generateVideo\<close>

record video =
  uri :: "string option"

record generated_video =
  gen_video :: "video option"

record videos_response =
  generatedVideos :: "generated_video list option"

record operation =
  op_done :: "bool option"
  response :: "videos_response option"

record video_payload =
  pl_model :: string
  pl_prompt :: string
  pl_numberOfVideos :: nat
  pl_resolution :: string
  pl_aspectRatio :: string
  pl_image :: "(string \<times> string) option"

datatype poll_action = Wait nat | GetVideosOperation

definition isDone :: "operation \<Rightarrow> bool" where
  "isDone operation = (op_done operation = Some True)"

text \<open>
  The \<open>while (!operation.done)\<close> loop. The answers of the service to the successive
  re-queries are a list, each a failure or an operation; the result is \<open>None\<close> when the
  list is used up before an operation is done (the loop has not returned). The trace
  lists the waits (in milliseconds) and the re-queries, oldest first.
\<close>

fun pollLoop ::
  "operation \<Rightarrow> (raw_error + operation) list \<Rightarrow> poll_action list
     \<Rightarrow> ((raw_error + operation) \<times> poll_action list) option" where
  "pollLoop operation [] trace =
     (if isDone operation then Some (Inr operation, trace) else None)"
| "pollLoop operation (r # rs) trace =
     (if isDone operation then Some (Inr operation, trace)
      else (case r of
              Inl e \<Rightarrow> Some (Inl e, trace @ [Wait 5000, GetVideosOperation])
            | Inr operation' \<Rightarrow> pollLoop operation' rs (trace @ [Wait 5000, GetVideosOperation])))"

text \<open>\<open>operation.response?.generatedVideos?.[0]?.video?.uri\<close>\<close>

definition videoUri :: "operation \<Rightarrow> string option" where
  "videoUri operation =
     (case response operation of
        None \<Rightarrow> None
      | Some r \<Rightarrow>
          (case generatedVideos r of
             None \<Rightarrow> None
           | Some [] \<Rightarrow> None
           | Some (g # gs) \<Rightarrow> (case gen_video g of None \<Rightarrow> None | Some v \<Rightarrow> uri v)))"

definition videoPayload ::
  "string \<Rightarrow> GenerationConfig \<Rightarrow> attachment option \<Rightarrow> video_payload" where
  "videoPayload prompt config att =
     \<lparr> pl_model = VIDEO_GEN_MODEL, pl_prompt = prompt, pl_numberOfVideos = 1,
       pl_resolution = ''720p'',
       pl_aspectRatio = (case aspectRatio config of
                           None \<Rightarrow> ''16:9''
                         | Some a \<Rightarrow> if a = [] then ''16:9'' else a),
       pl_image = map_option (\<lambda>a. (data a, mimeType a)) att \<rparr>"

text \<open>
  \<open>generateVideos\<close> is the service's answer to the first call, \<open>responses\<close> its answers
  to the re-queries. Every exception goes through \<open>mapError\<close> in the \<open>catch\<close> clause.
\<close>

definition generateVideo ::
  "string \<Rightarrow> (video_payload \<Rightarrow> raw_error + operation) \<Rightarrow> (raw_error + operation) list
     \<Rightarrow> string \<Rightarrow> GenerationConfig \<Rightarrow> attachment option
     \<Rightarrow> ((js_error + string) \<times> poll_action list) option" where
  "generateVideo API_KEY generateVideos responses prompt config att =
     (case generateVideos (videoPayload prompt config att) of
        Inl e \<Rightarrow> Some (Inl (mapError e), [])
      | Inr operation \<Rightarrow>
          (case pollLoop operation responses [] of
             None \<Rightarrow> None
           | Some (Inl e, trace) \<Rightarrow> Some (Inl (mapError e), trace)
           | Some (Inr final, trace) \<Rightarrow>
               (case videoUri final of
                  None \<Rightarrow> Some (Inl (mapError (RawError (Some ''Video generation failed.''))), trace)
                | Some u \<Rightarrow>
                    if u = []
                    then Some (Inl (mapError (RawError (Some ''Video generation failed.''))), trace)
                    else Some (Inr (u @ ''&key='' @ API_KEY), trace))))"

definition requeries :: "poll_action list \<Rightarrow> nat" where
  "requeries trace = length (filter (\<lambda>a. a = GetVideosOperation) trace)"

text \<open>
  What \<open>generateVideo\<close> makes of the operation the loop ends with, and the trace of
  \<open>n\<close> rounds of the loop.
\<close>

definition deliver :: "string \<Rightarrow> operation \<Rightarrow> js_error + string" where
  "deliver API_KEY final =
     (case videoUri final of
        None \<Rightarrow> Inl (Error ''Video generation failed.'')
      | Some u \<Rightarrow> if u = [] then Inl (Error ''Video generation failed.'')
                  else Inr (u @ ''&key='' @ API_KEY))"

definition pollRounds :: "nat \<Rightarrow> poll_action list" where
  "pollRounds n = concat (replicate n [Wait 5000, GetVideosOperation])"

text \<open>Two operations for examples: one still running, one done with a single video.\<close>

definition pendingOperation :: operation where
  "pendingOperation = \<lparr> op_done = None, response = None \<rparr>"

definition finishedOperation :: "string option \<Rightarrow> operation" where
  "finishedOperation u =
     \<lparr> op_done = Some True,
       response = Some \<lparr> generatedVideos = Some [\<lparr> gen_video = Some \<lparr> uri = u \<rparr> \<rparr>] \<rparr> \<rparr>"

section \<open>Properties of the error normalizer\<close>

lemma str_includes_sublist: "str_includes s n = sublist n s"
  by (induction s) (auto simp: sublist_Cons_right)

lemma sublist_map_iff: "sublist n (map f s) = (\<exists>w. sublist w s \<and> map f w = n)"
proof
  assume "sublist n (map f s)"
  then obtain ps ss where "map f s = ps @ n @ ss" by (auto simp: sublist_def)
  then obtain us r where a: "s = us @ r" "n @ ss = map f r"
    by (auto simp: map_eq_append_conv)
  then obtain vs ws where "r = vs @ ws" "n = map f vs"
    by (auto simp: append_eq_map_conv)
  with a have "s = us @ vs @ ws" "n = map f vs" by simp_all
  then show "\<exists>w. sublist w s \<and> map f w = n" by (auto simp: sublist_def)
next
  assume "\<exists>w. sublist w s \<and> map f w = n"
  then obtain w ps ss where "s = ps @ w @ ss" "map f w = n" by (auto simp: sublist_def)
  then have "map f s = map f ps @ n @ map f ss" by simp
  then show "sublist n (map f s)" unfolding sublist_def by blast
qed

lemma includes_lower_ci:
  "toLowerCase needle = needle \<Longrightarrow> str_includes (toLowerCase m) needle = contains_ci m needle"
  by (simp add: str_includes_sublist contains_ci_def toLowerCase_def sublist_map_iff)

lemma lower_needles:
  "toLowerCase ''429'' = ''429''" "toLowerCase ''exhausted'' = ''exhausted''"
  "toLowerCase ''safety'' = ''safety''"
  by (simp_all add: toLowerCase_def lower_char_def)

text \<open>
  Claim C8. For every raw error, \<open>mapError\<close> returns the rate-limit message when the
  error's message contains "429" or "exhausted" case-insensitively; otherwise the
  blocked-by-safety message when it contains "safety" case-insensitively; otherwise an
  error with the original message when there is a non-empty one, and with the fixed
  fallback message when there is none.
\<close>

theorem mapError_classification:
  "mapError e =
     (if message_contains_ci e ''429'' \<or> message_contains_ci e ''exhausted''
      then Error ''Rate limit exceeded. Try again later.''
      else if message_contains_ci e ''safety''
      then Error ''Content blocked by safety settings.''
      else Error (case message e of
                    None \<Rightarrow> ''An unexpected error occurred.''
                  | Some m \<Rightarrow> if m = [] then ''An unexpected error occurred.'' else m))"
proof (cases "message e")
  case None
  then show ?thesis by (simp add: mapError_def message_contains_ci_def)
next
  case (Some m)
  then show ?thesis
    by (simp add: mapError_def message_contains_ci_def includes_lower_ci lower_needles Let_def)
qed

theorem mapError_classification_witness:
  "message_contains_ci (RawError (Some ''Quota EXHAUSTED'')) ''exhausted'' \<and>
   mapError (RawError (Some ''Quota EXHAUSTED'')) = Error ''Rate limit exceeded. Try again later.'' \<and>
   mapError (RawError (Some ''SAFETY filter'')) = Error ''Content blocked by safety settings.'' \<and>
   mapError (RawError (Some ''socket closed'')) = Error ''socket closed'' \<and>
   mapError (RawError None) = Error ''An unexpected error occurred.''"
  using mapError_classification [of "RawError (Some ''Quota EXHAUSTED'')"]
  by (simp add: mapError_def toLowerCase_def lower_char_def message_contains_ci_def
      flip: includes_lower_ci [OF lower_needles(2)])

section \<open>Properties of the streaming pathway\<close>

lemma streamResponse_request:
  "request (streamResponse backend history newMessage atts mode signal) =
     \<lparr> reqModel = fst (selectModel mode atts), reqHistory = mapMessagesToHistory history,
       reqConfig = snd (selectModel mode atts),
       reqMessage = (if newMessage \<noteq> [] then [TextPart newMessage] else []) @ inlineParts atts \<rparr>"
  by (simp add: streamResponse_def Let_def split: prod.splits sum.splits)

lemma partsText_inline [simp]: "partsText (inlineParts atts) = []"
  by (induction atts) (simp_all add: inlineParts_def)

lemma partsInline_inline [simp]:
  "partsInline (inlineParts atts) = map (\<lambda>att. (mimeType att, data att)) atts"
  by (induction atts) (simp_all add: inlineParts_def)

lemma contentView_messageToContent: "contentView (messageToContent msg) = messageView msg"
  by (simp add: contentView_def messageToContent_def messageView_def attachmentsOf_def
      split: option.splits)

lemma history_filter:
  "filter (\<lambda>msg. content msg \<noteq> [] \<or>
                       (case attachments msg of None \<Rightarrow> False | Some atts \<Rightarrow> length atts > 0))
          (filter (\<lambda>msg. isError msg \<noteq> Some True) messages) = filter transmitted messages"
  by (induction messages) (auto simp: transmitted_def attachmentsOf_def split: option.splits)

lemma mapMessagesToHistory_eq:
  "mapMessagesToHistory messages = map messageToContent (filter transmitted messages)"
  unfolding mapMessagesToHistory_def history_filter ..

lemma streamResponse_outcome:
  "outcome (streamResponse backend history newMessage atts mode signal) =
     (case backend (request (streamResponse backend history newMessage atts mode signal)) of
        Inl e \<Rightarrow> (if aborted signal 0 then Inr [] else Inl (mapError e))
      | Inr events \<Rightarrow> fst (consumeStream signal 0 events [] []))"
  unfolding streamResponse_request
  by (simp add: streamResponse_def Let_def split: prod.splits sum.splits)

lemma streamResponse_onChunkCalls:
  "onChunkCalls (streamResponse backend history newMessage atts mode signal) =
     (case backend (request (streamResponse backend history newMessage atts mode signal)) of
        Inl e \<Rightarrow> []
      | Inr events \<Rightarrow> snd (consumeStream signal 0 events [] []))"
  unfolding streamResponse_request
  by (simp add: streamResponse_def Let_def split: prod.splits sum.splits)

text \<open>
  Claim C9. The history sent to the backend by \<open>streamResponse\<close> consists of the
  messages that are not flagged as errors and that have a non-empty content or at least
  one attachment, in their original order, each with its role, its content and the MIME
  type and payload of each of its attachments; every other message is left out.
\<close>

theorem history_transmitted:
  "map contentView (reqHistory (request (streamResponse backend history newMessage atts mode signal)))
     = map messageView (filter transmitted history)"
  by (simp add: streamResponse_request mapMessagesToHistory_eq
      contentView_messageToContent comp_def)

theorem history_transmitted_witness:
  "map contentView (reqHistory (request (streamResponse (\<lambda>_. Inr [])
      [\<lparr> msg_id = ''a'', msg_role = User, content = ''hello'', timestamp = 1, isStreaming = None,
         isError = None, attachments = None, generatedImage = None, generatedVideo = None,
         audioData = None \<rparr>,
       \<lparr> msg_id = ''b'', msg_role = Model, content = ''Rate limit exceeded.'', timestamp = 2,
         isStreaming = Some False, isError = Some True, attachments = None,
         generatedImage = None, generatedVideo = None, audioData = None \<rparr>,
       \<lparr> msg_id = ''c'', msg_role = Model, content = [], timestamp = 3, isStreaming = Some False,
         isError = None, attachments = Some [], generatedImage = Some ''blob:1'',
         generatedVideo = None, audioData = None \<rparr>,
       \<lparr> msg_id = ''d'', msg_role = User, content = [], timestamp = 4, isStreaming = None,
         isError = Some False,
         attachments = Some [\<lparr> mimeType = ''image/png'', data = ''iVBOR'', name = Some ''x.png'' \<rparr>],
         generatedImage = None, generatedVideo = None, audioData = None \<rparr>]
      ''next'' [] Chat None)))
   = [(User, ''hello'', []), (User, [], [(''image/png'', ''iVBOR'')])]"
  using history_transmitted [where backend = "\<lambda>_. Inr []" and newMessage = "''next''" and atts = "[]"
      and mode = Chat and signal = None and history =
      "[\<lparr> msg_id = ''a'', msg_role = User, content = ''hello'', timestamp = 1, isStreaming = None,
         isError = None, attachments = None, generatedImage = None, generatedVideo = None,
         audioData = None \<rparr>,
       \<lparr> msg_id = ''b'', msg_role = Model, content = ''Rate limit exceeded.'', timestamp = 2,
         isStreaming = Some False, isError = Some True, attachments = None,
         generatedImage = None, generatedVideo = None, audioData = None \<rparr>,
       \<lparr> msg_id = ''c'', msg_role = Model, content = [], timestamp = 3, isStreaming = Some False,
         isError = None, attachments = Some [], generatedImage = Some ''blob:1'',
         generatedVideo = None, audioData = None \<rparr>,
       \<lparr> msg_id = ''d'', msg_role = User, content = [], timestamp = 4, isStreaming = None,
         isError = Some False,
         attachments = Some [\<lparr> mimeType = ''image/png'', data = ''iVBOR'', name = Some ''x.png'' \<rparr>],
         generatedImage = None, generatedVideo = None, audioData = None \<rparr>]"]
  by (simp add: transmitted_def attachmentsOf_def messageView_def)

text \<open>
  Claim C3, as stated, fails: in thinking mode a request with an audio attachment keeps the
  thinking model, which is not the audio model.
\<close>

theorem audio_override_counterexample:
  "hasAudio [\<lparr> mimeType = ''audio/wav'', data = ''UklGRg=='', name = None \<rparr>] \<and>
   reqModel (request (streamResponse (\<lambda>_. Inr []) [] ''transcribe this''
       [\<lparr> mimeType = ''audio/wav'', data = ''UklGRg=='', name = None \<rparr>] Thinking None))
     = ''gemini-3-pro-preview'' \<and>
   reqModel (request (streamResponse (\<lambda>_. Inr []) [] ''transcribe this''
       [\<lparr> mimeType = ''audio/wav'', data = ''UklGRg=='', name = None \<rparr>] Thinking None))
     \<noteq> AUDIO_MODEL"
  by (simp add: streamResponse_request selectModel_def hasAudio_def startsWith_def
      THINKING_MODEL_def AUDIO_MODEL_def)

text \<open>
  Claim C3, amended. For every request whose attachment list contains an attachment with
  a MIME type starting with "audio/", \<open>streamResponse\<close> selects the audio model with the
  default configuration when the mode is none of thinking, fast and maps (chat mode in
  particular); in thinking, fast and maps mode it selects that mode's own model and
  configuration, as it does without attachments.
\<close>

theorem audio_override_by_mode:
  assumes "hasAudio atts"
  shows "(let r = request (streamResponse backend history newMessage atts mode signal)
          in (reqModel r, reqConfig r)) =
         (if mode = Thinking then (THINKING_MODEL, defaultConfig\<lparr> thinkingConfig := Some 32768 \<rparr>)
          else if mode = Fast then (FAST_MODEL, defaultConfig)
          else if mode = Maps then (MAPS_MODEL, defaultConfig\<lparr> tools := [GoogleMaps] \<rparr>)
          else (AUDIO_MODEL, defaultConfig))"
proof -
  from assms have "atts \<noteq> []" by (auto simp: hasAudio_def)
  with assms show ?thesis
    by (simp add: streamResponse_request selectModel_def hasAudio_def defaultConfig_def Let_def)
qed

theorem audio_override_by_mode_witness:
  "hasAudio [\<lparr> mimeType = ''audio/mpeg'', data = ''SUQz'', name = Some ''memo.mp3'' \<rparr>] \<and>
   (let r = request (streamResponse (\<lambda>_. Inr []) [] ''what is said here?''
               [\<lparr> mimeType = ''audio/mpeg'', data = ''SUQz'', name = Some ''memo.mp3'' \<rparr>] Chat None)
    in (reqModel r, reqConfig r)) = (''gemini-2.5-flash'', defaultConfig)"
  using audio_override_by_mode [of "[\<lparr> mimeType = ''audio/mpeg'', data = ''SUQz'', name = Some ''memo.mp3'' \<rparr>]"
      "\<lambda>_. Inr []" "[]" "''what is said here?''" Chat None]
  by (simp add: hasAudio_def startsWith_def AUDIO_MODEL_def)

lemma consume_chunks:
  "(\<forall>j<length cs. \<not> aborted signal (i + j)) \<Longrightarrow>
   consumeStream signal i (map Chunk cs @ rest) full calls =
   consumeStream signal (i + length cs) rest (full @ concat (map chunkText cs))
     (calls @ filter (\<lambda>t. t \<noteq> []) (map chunkText cs))"
proof (induction cs arbitrary: i full calls)
  case Nil
  then show ?case by simp
next
  case (Cons c cs)
  from Cons.prems have here: "\<not> aborted signal i" by force
  from Cons.prems have "\<forall>j<length cs. \<not> aborted signal (Suc i + j)" by fastforce
  from Cons.IH [OF this] here show ?case
    by (cases c) (simp_all add: chunkText_def)
qed

text \<open>
  Claim C2. For every stream of chunks and every cancellation signal that is not aborted
  while the first \<open>N\<close> chunks are handled and is aborted when the stream is read
  next, \<open>streamResponse\<close> returns the concatenation of the texts of those \<open>N\<close>
  chunks, has called \<open>onChunk\<close> on exactly their non-empty texts in order and on
  nothing else, and throws nothing.
\<close>

theorem cancel_after_chunks:
  assumes "N \<le> length cs"
    and "\<forall>i<N. \<not> aborted signal i"
    and "aborted signal N"
    and "backend (request (streamResponse backend history newMessage atts mode signal))
           = Inr (map Chunk cs)"
  shows "outcome (streamResponse backend history newMessage atts mode signal)
           = Inr (concat (map chunkText (take N cs))) \<and>
         onChunkCalls (streamResponse backend history newMessage atts mode signal)
           = filter (\<lambda>t. t \<noteq> []) (map chunkText (take N cs))"
proof -
  let ?req = "request (streamResponse backend history newMessage atts mode signal)"
  have split: "map Chunk cs = map Chunk (take N cs) @ map Chunk (drop N cs)"
    by (simp flip: map_append)
  have len: "length (take N cs) = N" using assms(1) by simp
  have pre: "\<forall>j<length (take N cs). \<not> aborted signal (0 + j)" using assms(2) by simp
  have stop: "consumeStream signal N (map Chunk (drop N cs)) full calls = (Inr full, calls)"
    for full calls
    using assms(3) by (cases "drop N cs") simp_all
  have run: "consumeStream signal 0 (map Chunk cs) [] [] =
      (Inr (concat (map chunkText (take N cs))), filter (\<lambda>t. t \<noteq> []) (map chunkText (take N cs)))"
    using consume_chunks [OF pre, of "map Chunk (drop N cs)" "[]" "[]"] len stop
    by (simp flip: split)
  show ?thesis
    by (simp add: streamResponse_outcome streamResponse_onChunkCalls assms(4) run)
qed

theorem cancel_after_chunks_witness:
  "outcome (streamResponse (\<lambda>_. Inr (map Chunk [Some ''Hel'', Some ''lo'', None, Some '' world'']))
              [] ''hi'' [] Chat (Some (\<lambda>i. 3 \<le> i))) = Inr ''Hello'' \<and>
   onChunkCalls (streamResponse (\<lambda>_. Inr (map Chunk [Some ''Hel'', Some ''lo'', None, Some '' world'']))
              [] ''hi'' [] Chat (Some (\<lambda>i. 3 \<le> i))) = [''Hel'', ''lo'']"
  using cancel_after_chunks [where N = 3 and cs = "[Some ''Hel'', Some ''lo'', None, Some '' world'']"
      and signal = "Some (\<lambda>i. 3 \<le> i)"
      and backend = "\<lambda>_. Inr (map Chunk [Some ''Hel'', Some ''lo'', None, Some '' world''])"
      and history = "[]" and newMessage = "''hi''" and atts = "[]" and mode = Chat]
  by (simp add: aborted_def chunkText_def)

lemma consume_error_origin:
  "fst (consumeStream signal i events full calls) = Inl err \<Longrightarrow>
   \<exists>k e. k < length events \<and> events ! k = StreamError e \<and> \<not> aborted signal (i + k)
         \<and> err = mapError e"
proof (induction signal i events full calls rule: consumeStream.induct)
  case (1 signal i fullText calls)
  then show ?case by simp
next
  case (2 signal i e rest fullText calls)
  then show ?case by (auto split: if_splits)
next
  case (3 signal i tx rest fullText calls)
  from "3.prems" have na: "\<not> aborted signal i" by (auto split: if_splits)
  have "\<exists>k e. k < length rest \<and> rest ! k = StreamError e \<and> \<not> aborted signal (Suc i + k)
         \<and> err = mapError e"
  proof (cases tx)
    case None
    with "3.prems" na "3.IH"(1) show ?thesis by simp
  next
    case (Some t)
    show ?thesis
    proof (cases "t = []")
      case True
      with Some "3.prems" na "3.IH"(3) show ?thesis by simp
    next
      case False
      with Some "3.prems" na "3.IH"(2) show ?thesis by simp
    qed
  qed
  then obtain k e where "k < length rest" "rest ! k = StreamError e"
    "\<not> aborted signal (Suc i + k)" "err = mapError e" by blast
  then have "Suc k < length (Chunk tx # rest) \<and> (Chunk tx # rest) ! Suc k = StreamError e \<and>
     \<not> aborted signal (i + Suc k) \<and> err = mapError e" by simp
  then show ?case by blast
qed

text \<open>
  Claim C10. When the stream call fails, at once or after some chunks, while the signal is
  aborted, \<open>streamResponse\<close> returns the empty string, whatever text it had
  accumulated, and throws nothing; when the signal is not aborted it throws the normalized
  error. Whenever \<open>streamResponse\<close> throws, what it throws is \<open>mapError\<close> of a
  failure of the stream call that it met while the signal was not aborted.
\<close>

theorem failure_while_aborted:
  "(backend (request (streamResponse backend history newMessage atts mode signal)) = Inl e
      \<longrightarrow> outcome (streamResponse backend history newMessage atts mode signal)
            = (if aborted signal 0 then Inr [] else Inl (mapError e))) \<and>
   (backend (request (streamResponse backend history newMessage atts mode signal))
        = Inr (map Chunk cs @ StreamError e # rest) \<and> (\<forall>i<length cs. \<not> aborted signal i)
      \<longrightarrow> outcome (streamResponse backend history newMessage atts mode signal)
            = (if aborted signal (length cs) then Inr [] else Inl (mapError e)) \<and>
          onChunkCalls (streamResponse backend history newMessage atts mode signal)
            = filter (\<lambda>t. t \<noteq> []) (map chunkText cs)) \<and>
   (outcome (streamResponse backend history newMessage atts mode signal) = Inl err
      \<longrightarrow> (\<exists>k e'. failureAt (backend (request (streamResponse backend history newMessage atts mode signal))) k e'
                  \<and> \<not> aborted signal k \<and> err = mapError e'))"
proof (intro conjI impI)
  assume "backend (request (streamResponse backend history newMessage atts mode signal)) = Inl e"
  then show "outcome (streamResponse backend history newMessage atts mode signal)
            = (if aborted signal 0 then Inr [] else Inl (mapError e))"
    by (simp add: streamResponse_outcome)
next
  assume a: "backend (request (streamResponse backend history newMessage atts mode signal))
        = Inr (map Chunk cs @ StreamError e # rest) \<and> (\<forall>i<length cs. \<not> aborted signal i)"
  then have "\<forall>j<length cs. \<not> aborted signal (0 + j)" by simp
  from consume_chunks [OF this, of "StreamError e # rest" "[]" "[]"]
  have run: "consumeStream signal 0 (map Chunk cs @ StreamError e # rest) [] [] =
      (if aborted signal (length cs) then (Inr [], filter (\<lambda>t. t \<noteq> []) (map chunkText cs))
       else (Inl (mapError e), filter (\<lambda>t. t \<noteq> []) (map chunkText cs)))"
    by simp
  from a run show "outcome (streamResponse backend history newMessage atts mode signal)
            = (if aborted signal (length cs) then Inr [] else Inl (mapError e))"
    by (simp add: streamResponse_outcome)
  from a run show "onChunkCalls (streamResponse backend history newMessage atts mode signal)
            = filter (\<lambda>t. t \<noteq> []) (map chunkText cs)"
    by (simp add: streamResponse_onChunkCalls)
next
  assume o: "outcome (streamResponse backend history newMessage atts mode signal) = Inl err"
  show "\<exists>k e'. failureAt (backend (request (streamResponse backend history newMessage atts mode signal))) k e'
                  \<and> \<not> aborted signal k \<and> err = mapError e'"
  proof (cases "backend (request (streamResponse backend history newMessage atts mode signal))")
    case (Inl e0)
    with o have "\<not> aborted signal 0 \<and> err = mapError e0"
      by (auto simp: streamResponse_outcome split: if_splits)
    with Inl show ?thesis by (auto simp: failureAt_def)
  next
    case (Inr events)
    with o have "fst (consumeStream signal 0 events [] []) = Inl err"
      by (simp add: streamResponse_outcome)
    from consume_error_origin [OF this] Inr show ?thesis
      by (auto simp: failureAt_def)
  qed
qed

theorem failure_while_aborted_witness:
  "outcome (streamResponse (\<lambda>_. Inr (map Chunk [Some ''par'', Some ''tial'']
                @ StreamError (RawError (Some ''network lost'')) # []))
              [] ''hi'' [] Chat (Some (\<lambda>i. 2 \<le> i))) = Inr [] \<and>
   onChunkCalls (streamResponse (\<lambda>_. Inr (map Chunk [Some ''par'', Some ''tial'']
                @ StreamError (RawError (Some ''network lost'')) # []))
              [] ''hi'' [] Chat (Some (\<lambda>i. 2 \<le> i))) = [''par'', ''tial''] \<and>
   outcome (streamResponse (\<lambda>_. Inr (map Chunk [Some ''par'', Some ''tial'']
                @ StreamError (RawError (Some ''network lost'')) # []))
              [] ''hi'' [] Chat None) = Inl (Error ''network lost'')"
  using failure_while_aborted [where cs = "[Some ''par'', Some ''tial'']"
      and e = "RawError (Some ''network lost'')" and rest = "[]"
      and signal = "Some (\<lambda>i. 2 \<le> i)" and history = "[]" and newMessage = "''hi''"
      and atts = "[]" and mode = Chat
      and backend = "\<lambda>_. Inr (map Chunk [Some ''par'', Some ''tial'']
                @ StreamError (RawError (Some ''network lost'')) # [])"]
    failure_while_aborted [where cs = "[Some ''par'', Some ''tial'']"
      and e = "RawError (Some ''network lost'')" and rest = "[]"
      and signal = "None" and history = "[]" and newMessage = "''hi''"
      and atts = "[]" and mode = Chat
      and backend = "\<lambda>_. Inr (map Chunk [Some ''par'', Some ''tial'']
                @ StreamError (RawError (Some ''network lost'')) # [])"]
  by (simp add: aborted_def chunkText_def mapError_def toLowerCase_def lower_char_def)

section \<open>Properties of the PCM to WAV conversion\<close>

lemma unat_byte: "unat (of_nat (n mod 256) :: byte) = n mod 256"
  by (simp add: unat_of_nat)

lemma uint32Bytes_length: "\<exists>a b c d. uint32Bytes v = [a, b, c, d]"
  by (simp add: uint32Bytes_def Let_def)

lemma uint16Bytes_length: "\<exists>a b. uint16Bytes v = [a, b]"
  by (simp add: uint16Bytes_def Let_def)

lemma digits_compose:
  fixes n :: nat
  shows "n = 256 * q1 + r0 \<Longrightarrow> q1 = 256 * q2 + r1 \<Longrightarrow> q2 = 256 * q3 + r2 \<Longrightarrow>
    r0 + 256 * r1 + 65536 * r2 + 16777216 * q3 = n"
  by simp

lemma base256_digits:
  fixes n :: nat
  assumes "n < 4294967296"
  shows "n mod 256 + 256 * (n div 256 mod 256) + 65536 * (n div 65536 mod 256)
      + 16777216 * (n div 16777216 mod 256) = n"
proof -
  have a: "n div 65536 = n div 256 div 256" by (simp add: div_mult2_eq)
  have b: "n div 16777216 = n div 256 div 256 div 256" by (simp add: div_mult2_eq)
  have c: "n div 256 div 256 div 256 mod 256 = n div 256 div 256 div 256" using assms by simp
  have "n mod 256 + 256 * (n div 256 mod 256) + 65536 * (n div 256 div 256 mod 256)
      + 16777216 * (n div 256 div 256 div 256) = n"
    by (rule digits_compose) simp_all
  then show ?thesis unfolding a b c .
qed

lemma uint32Bytes_value:
  assumes "uint32Bytes v = [a, b, c, d]"
  shows "unat a + 256 * unat b + 65536 * unat c + 16777216 * unat d = nat (v mod 4294967296)"
proof -
  let ?m = "nat (v mod 4294967296)"
  have m: "?m < 4294967296" by simp
  have "uint32Bytes v = [of_nat (?m mod 256), of_nat (?m div 256 mod 256),
      of_nat (?m div 65536 mod 256), of_nat (?m div 16777216 mod 256)]"
    by (simp only: uint32Bytes_def Let_def)
  with assms have "[a, b, c, d] = [of_nat (?m mod 256), of_nat (?m div 256 mod 256),
      of_nat (?m div 65536 mod 256), of_nat (?m div 16777216 mod 256)]"
    by (simp only:)
  then have "a = of_nat (?m mod 256)" "b = of_nat (?m div 256 mod 256)"
    "c = of_nat (?m div 65536 mod 256)" "d = of_nat (?m div 16777216 mod 256)"
    by (simp_all only: list.inject)
  then have "unat a = ?m mod 256" "unat b = ?m div 256 mod 256"
    "unat c = ?m div 65536 mod 256" "unat d = ?m div 16777216 mod 256"
    by (simp_all only: unat_byte)
  then show ?thesis using base256_digits [OF m] by (simp only:)
qed


lemma setBytes_fresh:
  "length pre = off \<Longrightarrow> length bs \<le> n \<Longrightarrow>
   setBytes (pre @ replicate n z) off bs = Some ((pre @ bs) @ replicate (n - length bs) z)"
  by (simp add: setBytes_def)

lemma char_byte: "of_nat (nat ((of_char c :: int) mod 256)) = (of_char c :: byte)"
  by (simp add: of_char_mod_256 nat_of_char of_nat_of_char)

lemma writeString_fresh:
  "length pre = off \<Longrightarrow> length str \<le> n \<Longrightarrow>
   writeString (pre @ replicate n 0) off str =
     Some ((pre @ tagBytes str) @ replicate (n - length str) 0)"
proof (induction str arbitrary: pre off n)
  case Nil
  then show ?case by (simp add: tagBytes_def)
next
  case (Cons c cs)
  from Cons.prems have n: "1 \<le> n" "length cs \<le> n - 1" by simp_all
  from Cons.prems(1) n(1)
  have 1: "setUint8 (pre @ replicate n 0) off (of_char c) =
      Some ((pre @ [of_char c]) @ replicate (n - 1) 0)"
    unfolding setUint8_def char_byte by (simp add: setBytes_fresh)
  have 2: "length (pre @ [of_char c :: byte]) = Suc off" using Cons.prems(1) by simp
  from Cons.IH [OF 2 n(2)] 1 show ?case by (simp add: tagBytes_def)
qed

lemma field_lengths:
  "length (uint32Bytes v) = 4" "length (uint16Bytes v) = 2" "length (tagBytes str) = length str"
  by (simp_all add: uint32Bytes_def uint16Bytes_def tagBytes_def Let_def)

lemma setUint32_fresh:
  "length pre = off \<Longrightarrow> 4 \<le> n \<Longrightarrow>
   setUint32 (pre @ replicate n 0) off v True = Some ((pre @ uint32Bytes v) @ replicate (n - 4) 0)"
  by (simp add: setUint32_def setBytes_fresh field_lengths)

lemma setUint16_fresh:
  "length pre = off \<Longrightarrow> 2 \<le> n \<Longrightarrow>
   setUint16 (pre @ replicate n 0) off v True = Some ((pre @ uint16Bytes v) @ replicate (n - 2) 0)"
  by (simp add: setUint16_def setBytes_fresh field_lengths)

lemma uint16Bytes_value:
  assumes "uint16Bytes v = [a, b]"
  shows "unat a + 256 * unat b = nat (v mod 65536)"
proof -
  let ?m = "nat (v mod 65536)"
  have "uint16Bytes v = [of_nat (?m mod 256), of_nat (?m div 256 mod 256)]"
    by (simp only: uint16Bytes_def Let_def)
  with assms have "[a, b] = [of_nat (?m mod 256), of_nat (?m div 256 mod 256)]"
    by (simp only:)
  then have "a = of_nat (?m mod 256)" "b = of_nat (?m div 256 mod 256)"
    by (simp_all only: list.inject)
  then have "unat a = ?m mod 256" "unat b = ?m div 256 mod 256"
    by (simp_all only: unat_byte)
  moreover have "?m div 256 mod 256 = ?m div 256" by simp
  ultimately show ?thesis by simp
qed

lemma getUint32_at:
  "length pre = off \<Longrightarrow> getUint32 (pre @ uint32Bytes v @ post) off True = Some (nat (v mod 4294967296))"
proof -
  assume l: "length pre = off"
  obtain a b c d where v: "uint32Bytes v = [a, b, c, d]"
    using uint32Bytes_length by blast
  from l show ?thesis
    by (simp add: getUint32_def v uint32Bytes_value [OF v])
qed

lemma getUint16_at:
  "length pre = off \<Longrightarrow> getUint16 (pre @ uint16Bytes v @ post) off True = Some (nat (v mod 65536))"
proof -
  assume l: "length pre = off"
  obtain a b where v: "uint16Bytes v = [a, b]"
    using uint16Bytes_length by blast
  from l show ?thesis
    by (simp add: getUint16_def v uint16Bytes_value [OF v])
qed

lemma readTag_at:
  "length pre = off \<Longrightarrow> length str = 4 \<Longrightarrow> readTag (pre @ tagBytes str @ post) off = tagBytes str"
  by (simp add: readTag_def tagBytes_def)

lemma wav_bytes:
  assumes "even (length s)"
  shows "base64PCMToWav s rate = Some (wavHeader (length s) rate @ map of_char s)"
proof -
  let ?len = "int (length s)"
  define p1 where "p1 = tagBytes ''RIFF''"
  define p2 where "p2 = p1 @ uint32Bytes (36 + ?len)"
  define p3 where "p3 = p2 @ tagBytes ''WAVE''"
  define p4 where "p4 = p3 @ tagBytes ''fmt ''"
  define p5 where "p5 = p4 @ uint32Bytes 16"
  define p6 where "p6 = p5 @ uint16Bytes 1"
  define p7 where "p7 = p6 @ uint16Bytes 1"
  define p8 where "p8 = p7 @ uint32Bytes rate"
  define p9 where "p9 = p8 @ uint32Bytes (rate * 2)"
  define p10 where "p10 = p9 @ uint16Bytes 2"
  define p11 where "p11 = p10 @ uint16Bytes 16"
  define p12 where "p12 = p11 @ tagBytes ''data''"
  define p13 where "p13 = p12 @ uint32Bytes ?len"
  have l1: "length p1 = 4" by (simp add: p1_def field_lengths)
  have l2: "length p2 = 8" by (simp add: p2_def l1 field_lengths)
  have l3: "length p3 = 12" by (simp add: p3_def l2 field_lengths)
  have l4: "length p4 = 16" by (simp add: p4_def l3 field_lengths)
  have l5: "length p5 = 20" by (simp add: p5_def l4 field_lengths)
  have l6: "length p6 = 22" by (simp add: p6_def l5 field_lengths)
  have l7: "length p7 = 24" by (simp add: p7_def l6 field_lengths)
  have l8: "length p8 = 28" by (simp add: p8_def l7 field_lengths)
  have l9: "length p9 = 32" by (simp add: p9_def l8 field_lengths)
  have l10: "length p10 = 34" by (simp add: p10_def l9 field_lengths)
  have l11: "length p11 = 36" by (simp add: p11_def l10 field_lengths)
  have l12: "length p12 = 40" by (simp add: p12_def l11 field_lengths)
  have w1: "writeString (replicate 44 0) 0 ''RIFF'' = Some (p1 @ replicate 40 0)"
    using writeString_fresh [of "[]" 0 "''RIFF''" 44] by (simp add: p1_def)
  have w2: "setUint32 (p1 @ replicate 40 0) 4 (36 + ?len) True = Some (p2 @ replicate 36 0)"
    using setUint32_fresh [OF l1, of 40 "36 + ?len"] by (simp add: p2_def)
  have w3: "writeString (p2 @ replicate 36 0) 8 ''WAVE'' = Some (p3 @ replicate 32 0)"
    using writeString_fresh [OF l2, of "''WAVE''" 36] by (simp add: p3_def)
  have w4: "writeString (p3 @ replicate 32 0) 12 ''fmt '' = Some (p4 @ replicate 28 0)"
    using writeString_fresh [OF l3, of "''fmt ''" 32] by (simp add: p4_def)
  have w5: "setUint32 (p4 @ replicate 28 0) 16 16 True = Some (p5 @ replicate 24 0)"
    using setUint32_fresh [OF l4, of 28 16] by (simp add: p5_def)
  have w6: "setUint16 (p5 @ replicate 24 0) 20 1 True = Some (p6 @ replicate 22 0)"
    using setUint16_fresh [OF l5, of 24 1] by (simp add: p6_def)
  have w7: "setUint16 (p6 @ replicate 22 0) 22 1 True = Some (p7 @ replicate 20 0)"
    using setUint16_fresh [OF l6, of 22 1] by (simp add: p7_def)
  have w8: "setUint32 (p7 @ replicate 20 0) 24 rate True = Some (p8 @ replicate 16 0)"
    using setUint32_fresh [OF l7, of 20 rate] by (simp add: p8_def)
  have w9: "setUint32 (p8 @ replicate 16 0) 28 (rate * 2) True = Some (p9 @ replicate 12 0)"
    using setUint32_fresh [OF l8, of 16 "rate * 2"] by (simp add: p9_def)
  have w10: "setUint16 (p9 @ replicate 12 0) 32 2 True = Some (p10 @ replicate 10 0)"
    using setUint16_fresh [OF l9, of 12 2] by (simp add: p10_def)
  have w11: "setUint16 (p10 @ replicate 10 0) 34 16 True = Some (p11 @ replicate 8 0)"
    using setUint16_fresh [OF l10, of 10 16] by (simp add: p11_def)
  have w12: "writeString (p11 @ replicate 8 0) 36 ''data'' = Some (p12 @ replicate 4 0)"
    using writeString_fresh [OF l11, of "''data''" 8] by (simp add: p12_def)
  have w13: "setUint32 (p12 @ replicate 4 0) 40 ?len True = Some p13"
    using setUint32_fresh [OF l12, of 4 ?len] by (simp add: p13_def)
  have h: "p13 = wavHeader (length s) rate"
    by (simp add: wavHeader_def p13_def p12_def p11_def p10_def p9_def p8_def p7_def p6_def
        p5_def p4_def p3_def p2_def p1_def)
  have "base64PCMToWav s rate = Some (p13 @ map of_char s)"
    using assms
    by (simp add: base64PCMToWav_def w1 w2 w3 w4 w5 w6 w7 w8 w9 w10 w11 w12 w13
        del: writeString.simps)
  then show ?thesis by (simp only: h)
qed

lemma getUint32_skip:
  assumes "length a \<le> off"
  shows "getUint32 (a @ v) off e = getUint32 v (off - length a) e"
proof -
  have "off + 4 \<le> length (a @ v) \<longleftrightarrow> off - length a + 4 \<le> length v"
    using assms by auto
  moreover have "drop off (a @ v) = drop (off - length a) v" using assms by simp
  ultimately show ?thesis by (simp only: getUint32_def)
qed

lemma getUint16_skip:
  assumes "length a \<le> off"
  shows "getUint16 (a @ v) off e = getUint16 v (off - length a) e"
proof -
  have "off + 2 \<le> length (a @ v) \<longleftrightarrow> off - length a + 2 \<le> length v"
    using assms by auto
  moreover have "drop off (a @ v) = drop (off - length a) v" using assms by simp
  ultimately show ?thesis by (simp only: getUint16_def)
qed

lemma getUint32_head:
  "getUint32 (uint32Bytes v @ post) 0 True = Some (nat (v mod 4294967296))"
  using getUint32_at [of "[]" 0 v post] by simp

lemma getUint16_head:
  "getUint16 (uint16Bytes v @ post) 0 True = Some (nat (v mod 65536))"
  using getUint16_at [of "[]" 0 v post] by simp

lemma wavHeader_fields:
  "length (wavHeader n rate) = 44"
  "getUint32 (wavHeader n rate) 4 True = Some (nat ((36 + int n) mod 4294967296))"
  "getUint16 (wavHeader n rate) 20 True = Some 1"
  "getUint16 (wavHeader n rate) 22 True = Some 1"
  "getUint32 (wavHeader n rate) 24 True = Some (nat (rate mod 4294967296))"
  "getUint32 (wavHeader n rate) 28 True = Some (nat (rate * 2 mod 4294967296))"
  "getUint16 (wavHeader n rate) 32 True = Some 2"
  "getUint16 (wavHeader n rate) 34 True = Some 16"
  "getUint32 (wavHeader n rate) 40 True = Some (nat (int n mod 4294967296))"
  using getUint32_head [of "int n" "[]"]
  by (simp_all add: wavHeader_def field_lengths getUint32_skip getUint16_skip
      getUint32_head getUint16_head)

text \<open>
  Claim C1. For every decoded PCM payload of even byte length and every (integer) sample
  rate, \<open>base64PCMToWav\<close> produces a 44-byte header followed by the payload bytes
  unchanged. The header is the canonical layout; its little-endian fields hold the RIFF
  chunk size 36 + payload length, format tag 1, channel count 1, the sample rate, the byte
  rate 2 * sample rate, block align 2, 16 bits per sample and the data size = payload
  length. The four variable fields are 32 bits wide: they hold these numbers modulo
  \<open>2^32\<close>, hence the numbers themselves whenever these are below \<open>2^32\<close>.
\<close>

theorem wav_container:
  assumes "even (length binaryString)"
  shows "\<exists>header.
     base64PCMToWav binaryString sampleRate = Some (header @ map of_char binaryString) \<and>
     length header = 44 \<and> header = wavHeader (length binaryString) sampleRate \<and>
     getUint32 header 4 True = Some (nat ((36 + int (length binaryString)) mod 4294967296)) \<and>
     getUint16 header 20 True = Some 1 \<and>
     getUint16 header 22 True = Some 1 \<and>
     getUint32 header 24 True = Some (nat (sampleRate mod 4294967296)) \<and>
     getUint32 header 28 True = Some (nat (sampleRate * 2 mod 4294967296)) \<and>
     getUint16 header 32 True = Some 2 \<and>
     getUint16 header 34 True = Some 16 \<and>
     getUint32 header 40 True = Some (nat (int (length binaryString) mod 4294967296)) \<and>
     (0 \<le> sampleRate \<and> sampleRate * 2 < 4294967296 \<and> 36 + length binaryString < 4294967296 \<longrightarrow>
        getUint32 header 4 True = Some (36 + length binaryString) \<and>
        getUint32 header 24 True = Some (nat sampleRate) \<and>
        getUint32 header 28 True = Some (nat (sampleRate * 2)) \<and>
        getUint32 header 40 True = Some (length binaryString))"
proof -
  let ?h = "wavHeader (length binaryString) sampleRate"
  have exact: "getUint32 ?h 4 True = Some (36 + length binaryString) \<and>
        getUint32 ?h 24 True = Some (nat sampleRate) \<and>
        getUint32 ?h 28 True = Some (nat (sampleRate * 2)) \<and>
        getUint32 ?h 40 True = Some (length binaryString)"
    if r: "0 \<le> sampleRate \<and> sampleRate * 2 < 4294967296 \<and> 36 + length binaryString < 4294967296"
  proof -
    from r have "(36 + int (length binaryString)) mod 4294967296 = 36 + int (length binaryString)"
      "sampleRate mod 4294967296 = sampleRate"
      "sampleRate * 2 mod 4294967296 = sampleRate * 2"
      "int (length binaryString) mod 4294967296 = int (length binaryString)"
      by simp_all
    then show ?thesis by (simp add: wavHeader_fields nat_add_distrib)
  qed
  from wav_bytes [OF assms, of sampleRate] exact show ?thesis
    by (simp add: wavHeader_fields)
qed

theorem wav_container_witness:
  "base64PCMToWav ''abcd'' 24000 =
     Some [82, 73, 70, 70, 40, 0, 0, 0, 87, 65, 86, 69, 102, 109, 116, 32,
           16, 0, 0, 0, 1, 0, 1, 0, 192, 93, 0, 0, 128, 187, 0, 0, 2, 0, 16, 0,
           100, 97, 116, 97, 4, 0, 0, 0, 97, 98, 99, 100]"
  using wav_container [of "''abcd''" 24000]
  by (auto simp: wavHeader_def uint32Bytes_def uint16Bytes_def tagBytes_def)

section \<open>Properties of the sample conversions\<close>

lemma trunc_bounds:
  "0 \<le> r \<Longrightarrow> of_int (trunc r) \<le> r \<and> r < of_int (trunc r) + 1"
  "r < 0 \<Longrightarrow> of_int (trunc r) - 1 < r \<and> r \<le> of_int (trunc r)"
  unfolding trunc_def by (simp, simp, linarith)

lemma trunc_mono: "r \<le> s \<Longrightarrow> trunc r \<le> trunc s"
proof -
  assume rs: "r \<le> s"
  consider "r < 0" "s < 0" | "r < 0" "0 \<le> s" | "0 \<le> r"
    by linarith
  then show ?thesis
  proof cases
    case 1
    with rs show ?thesis by (simp add: trunc_def ceiling_mono)
  next
    case 2
    then have "\<lceil>r\<rceil> \<le> 0" "0 \<le> \<lfloor>s\<rfloor>" by (simp_all add: ceiling_le_iff)
    then have "\<lceil>r\<rceil> \<le> \<lfloor>s\<rfloor>" by linarith
    with 2 show ?thesis by (simp add: trunc_def)
  next
    case 3
    with rs have "0 \<le> s" by simp
    with 3 rs show ?thesis by (simp add: trunc_def floor_mono)
  qed
qed

lemma trunc_range:
  assumes "- 32767 \<le> r" "r \<le> 32767"
  shows "- 32767 \<le> trunc r \<and> trunc r \<le> 32767"
proof -
  have "trunc (- 32767) \<le> trunc r" "trunc r \<le> trunc 32767"
    using assms by (simp_all only: trunc_mono)
  then show ?thesis by (simp add: trunc_def)
qed

lemma toInt16_exact: "- 32768 \<le> trunc r \<Longrightarrow> trunc r \<le> 32767 \<Longrightarrow> toInt16 r = trunc r"
  by (simp add: toInt16_def)

lemma encode_exact:
  assumes "- 1 \<le> x" "x \<le> 1"
  shows "encodeSample x = trunc (x * 32767)"
    and "- 32767 \<le> encodeSample x" and "encodeSample x \<le> 32767"
proof -
  from assms have "- 32767 \<le> x * 32767" "x * 32767 \<le> 32767" by simp_all
  from trunc_range [OF this] show "encodeSample x = trunc (x * 32767)"
    "- 32767 \<le> encodeSample x" "encodeSample x \<le> 32767"
    by (simp_all add: encodeSample_def toInt16_exact)
qed

lemma round_trip_error:
  assumes "- 1 \<le> x" "x \<le> 1"
  shows "\<bar>decodeSample (encodeSample x) - x\<bar> < 1 / 16384"
proof -
  let ?t = "trunc (x * 32767)"
  have e: "encodeSample x = ?t" using assms by (rule encode_exact)
  show ?thesis
  proof (cases "0 \<le> x")
    case True
    then have "0 \<le> x * 32767" by simp
    from trunc_bounds(1) [OF this] True assms show ?thesis
      by (simp add: e decodeSample_def abs_less_iff field_simps)
  next
    case False
    then have "x * 32767 < 0" by simp
    from trunc_bounds(2) [OF this] False assms show ?thesis
      by (simp add: e decodeSample_def abs_less_iff field_simps)
  qed
qed

text \<open>
  Claim C4, as stated, fails: the sample 65535/65536 lies in [-1, 1], is encoded as 32766
  and decoded as 32766/32768, which is 3/65536 away from it, more than 1/32768.
\<close>

theorem sample_round_trip_counterexample:
  "- 1 \<le> (65535 / 65536 :: real) \<and> (65535 / 65536 :: real) \<le> 1 \<and>
   encodeSample (65535 / 65536) = 32766 \<and>
   \<bar>decodeSample (encodeSample (65535 / 65536)) - 65535 / 65536\<bar> = 3 / 65536 \<and>
   \<not> \<bar>decodeSample (encodeSample (65535 / 65536)) - 65535 / 65536\<bar> \<le> 1 / 32768"
proof -
  have "encodeSample (65535 / 65536) = 32766"
    by (simp add: encodeSample_def toInt16_def trunc_def)
  then show ?thesis by (simp add: decodeSample_def)
qed

text \<open>
  Claim C4, amended. For every sample \<open>x\<close> in [-1, 1], encoding to Int16 (scaling by 32767
  and truncating) and decoding (dividing by 32768) yields a value less than 1/16384 away
  from \<open>x\<close>; the encoded value is the truncated product, between -32767 and 32767, so
  nothing wraps around, at -1 and 1 in particular; and the composed map is monotonic.
\<close>

theorem sample_round_trip:
  assumes "- 1 \<le> x" and "x \<le> y" and "y \<le> 1"
  shows "\<bar>decodeSample (encodeSample x) - x\<bar> < 1 / 16384 \<and>
         encodeSample x = trunc (x * 32767) \<and>
         - 32767 \<le> encodeSample x \<and> encodeSample x \<le> 32767 \<and>
         decodeSample (encodeSample x) \<le> decodeSample (encodeSample y) \<and>
         encodeSample 1 = 32767 \<and> encodeSample (- 1) = - 32767"
proof -
  from assms have x: "- 1 \<le> x" "x \<le> 1" and y: "- 1 \<le> y" "y \<le> 1" by simp_all
  have "x * 32767 \<le> y * 32767" using assms(2) by simp
  then have "encodeSample x \<le> encodeSample y"
    by (simp add: encode_exact(1) [OF x] encode_exact(1) [OF y] trunc_mono)
  then have mono: "decodeSample (encodeSample x) \<le> decodeSample (encodeSample y)"
    by (simp add: decodeSample_def divide_right_mono)
  have b: "encodeSample 1 = 32767" "encodeSample (- 1) = - 32767"
    by (simp_all add: encodeSample_def toInt16_def trunc_def)
  from round_trip_error [OF x] encode_exact [OF x] mono b show ?thesis by simp
qed

theorem sample_round_trip_witness:
  "\<bar>decodeSample (encodeSample (1 / 2)) - 1 / 2\<bar> < 1 / 16384 \<and>
   encodeSample (1 / 2) = 16383 \<and>
   decodeSample (encodeSample (1 / 2)) \<le> decodeSample (encodeSample 1) \<and>
   decodeSample (encodeSample 1) = 32767 / 32768"
  using sample_round_trip [of "1 / 2" 1]
  by (simp add: encodeSample_def toInt16_def trunc_def decodeSample_def)

section \<open>Properties of the voice session\<close>

lemma run_append: "run c (es @ fs) = run (run c es) fs"
  by (induction es arbitrary: c) simp_all

lemma statusLog_playAudio: "playAudio s t c = Some c' \<Longrightarrow> statusLog c' = statusLog c"
  by (auto simp: playAudio_def Let_def split: option.splits if_splits)

lemma statusLog_handle:
  "statusLog (handle e c) =
     statusLog c @ (case e of ConnectCaught \<Rightarrow> [ErrorStatus] | OnOpen \<Rightarrow> [Connected]
                    | OnClose \<Rightarrow> [Disconnected] | OnError \<Rightarrow> [ErrorStatus]
                    | DisconnectCalled \<Rightarrow> [Disconnected] | _ \<Rightarrow> [])"
proof (cases e)
  case (OnMessage audio t)
  then show ?thesis
    by (auto simp: statusLog_playAudio split: option.splits)
qed (simp_all add: onStatusChange_def startAudioInput_def disconnect_def split: option.splits)

lemma terminal_handle:
  "length (filter terminal (statusLog (handle e c))) =
     length (filter terminal (statusLog c)) + (if terminalEvent e then 1 else 0)"
  by (cases e) (simp_all add: statusLog_handle terminal_def terminalEvent_def del: handle.simps)

lemma terminal_run:
  "length (filter terminal (statusLog (run c es))) =
     length (filter terminal (statusLog c)) + length (filter terminalEvent es)"
  by (induction es arbitrary: c) (simp_all add: terminal_handle)

text \<open>
  Claim C6, as stated, fails: when a connected session is disconnected explicitly and the
  transport's close callback fires afterwards, the callback has been invoked with a
  terminal status twice.
\<close>

theorem terminal_notification_counterexample:
  "statusLog (run newLiveClient [ConnectCalled, SessionResolved, OnOpen, DisconnectCalled, OnClose])
     = [Connected, Disconnected, Disconnected] \<and>
   length (filter terminal (statusLog
     (run newLiveClient [ConnectCalled, SessionResolved, OnOpen, DisconnectCalled, OnClose]))) = 2"
  by (simp add: newLiveClient_def onStatusChange_def startAudioInput_def disconnect_def
      terminal_def)

text \<open>
  Claim C6, amended. Over a session lifecycle the status-change callback is invoked with a
  terminal status once for each terminal occurrence (an exception caught in \<open>connect\<close>,
  a transport error callback, a transport close callback, an explicit disconnect): never
  zero times when there is one, and twice with \<open>disconnected\<close> when an explicit
  disconnect is followed by the transport's close callback.
\<close>

theorem terminal_notifications:
  "length (filter terminal (statusLog (run newLiveClient es))) = length (filter terminalEvent es) \<and>
   statusLog (run newLiveClient (es @ [DisconnectCalled, OnClose]))
     = statusLog (run newLiveClient es) @ [Disconnected, Disconnected]"
proof -
  have "statusLog newLiveClient = []" by (simp add: newLiveClient_def)
  then show ?thesis
    by (simp add: terminal_run run_append statusLog_handle del: handle.simps)
qed

theorem terminal_notifications_witness:
  "length (filter terminal (statusLog (run newLiveClient
      [ConnectCalled, SessionResolved, OnOpen, OnError, OnClose]))) = 2 \<and>
   statusLog (run newLiveClient ([ConnectCalled, SessionResolved, OnOpen, OnError, OnClose]
      @ [DisconnectCalled, OnClose]))
     = [Connected, ErrorStatus, Disconnected, Disconnected, Disconnected]"
  using terminal_notifications [of "[ConnectCalled, SessionResolved, OnOpen, OnError, OnClose]"]
  by (simp add: terminalEvent_def newLiveClient_def onStatusChange_def startAudioInput_def)

lemma length_int16Samples: "length (int16Samples bs) = length bs div 2"
  by (induction bs rule: int16Samples.induct) (simp_all add: Let_def)

lemma playAudio_valid:
  assumes "outputContext c \<noteq> None" "validPayload s"
  shows "playAudio s now c =
     Some (c\<lparr> started := started c @
                 [\<lparr> startTime = max (nextStartTime c) now, duration = bufferDuration s,
                    channelData = map decodeSample (int16Samples (map of_char s)) \<rparr>],
              nextStartTime := max (nextStartTime c) now + bufferDuration s \<rparr>)"
proof -
  from assms(2) have "even (length s)" "length s div 2 \<noteq> 0"
    by (auto simp: validPayload_def)
  moreover from this have "int16Samples (map of_char s :: byte list) \<noteq> []"
    using length_int16Samples [of "map of_char s"] by auto
  moreover have "(if nextStartTime c < now then now else nextStartTime c) = max (nextStartTime c) now"
    by (simp add: max_def)
  ultimately show ?thesis using assms(1)
    by (auto simp: playAudio_def Let_def length_int16Samples bufferDuration_def)
qed

lemma scheduleInv_playAudio:
  assumes "scheduleInv c" "playAudio s now c = Some c'"
  shows "scheduleInv c'"
proof (cases "outputContext c")
  case None
  with assms show ?thesis by (simp add: playAudio_def)
next
  case (Some ctx)
  let ?n = "length (int16Samples (map of_char s :: byte list))"
  let ?start = "if nextStartTime c < now then now else nextStartTime c"
  from assms(2) Some have c': "c' = c\<lparr> started := started c @
       [\<lparr> startTime = ?start, duration = real ?n / 24000,
          channelData = map decodeSample (int16Samples (map of_char s)) \<rparr>],
       nextStartTime := ?start + real ?n / 24000 \<rparr>"
    by (auto simp: playAudio_def Let_def split: if_splits)
  have d: "0 \<le> real ?n / 24000" by simp
  have s: "nextStartTime c \<le> ?start" by simp
  from assms(1) have inv: "sorted_wrt (\<lambda>a b. endTime a \<le> startTime b) (started c)"
    "\<forall>b \<in> set (started c). endTime b \<le> nextStartTime c"
    by (simp_all add: scheduleInv_def)
  from inv(2) s have "\<forall>b \<in> set (started c). endTime b \<le> ?start" by force
  moreover from this d have "\<forall>b \<in> set (started c). endTime b \<le> ?start + real ?n / 24000"
    by force
  ultimately show ?thesis using inv(1)
    unfolding scheduleInv_def c' by (simp add: sorted_wrt_append endTime_def)
qed

lemma scheduleInv_handle: "scheduleInv c \<Longrightarrow> scheduleInv (handle e c)"
proof (cases e)
  case (OnMessage audio t)
  assume "scheduleInv c"
  with OnMessage show ?thesis
    by (auto simp: scheduleInv_playAudio split: option.splits)
qed (simp_all add: scheduleInv_def onStatusChange_def startAudioInput_def disconnect_def
    split: option.splits)

lemma scheduleInv_run: "scheduleInv c \<Longrightarrow> scheduleInv (run c es)"
  by (induction es arbitrary: c) (simp_all add: scheduleInv_handle)

text \<open>
  Claim C7. Over every sequence of events of a session, no two scheduled buffers overlap:
  each starts no earlier than every earlier one ends. A buffer that \<open>playAudio\<close>
  schedules starts at the maximum of the cursor and the playback clock's current time, and
  the cursor is then that start time plus the buffer's duration. When a second buffer
  arrives no later than the first one's scheduled end, it starts exactly at that end.
\<close>

theorem playback_schedule:
  "sorted_wrt (\<lambda>a b. endTime a \<le> startTime b) (started (run newLiveClient es)) \<and>
   (outputContext c \<noteq> None \<and> validPayload s \<longrightarrow>
      playAudio s now c =
        Some (c\<lparr> started := started c @
                    [\<lparr> startTime = max (nextStartTime c) now, duration = bufferDuration s,
                       channelData = map decodeSample (int16Samples (map of_char s)) \<rparr>],
                 nextStartTime := max (nextStartTime c) now + bufferDuration s \<rparr>)) \<and>
   (outputContext c \<noteq> None \<and> validPayload s \<and> validPayload s' \<and>
    now' \<le> max (nextStartTime c) now + bufferDuration s \<longrightarrow>
      map timing (started (run c [OnMessage (Some s) now, OnMessage (Some s') now'])) =
        map timing (started c) @
          [(max (nextStartTime c) now, bufferDuration s),
           (max (nextStartTime c) now + bufferDuration s, bufferDuration s')])"
proof (intro conjI impI)
  have "scheduleInv newLiveClient" by (simp add: scheduleInv_def newLiveClient_def)
  then have "scheduleInv (run newLiveClient es)" by (rule scheduleInv_run)
  then show "sorted_wrt (\<lambda>a b. endTime a \<le> startTime b) (started (run newLiveClient es))"
    by (simp add: scheduleInv_def)
next
  assume "outputContext c \<noteq> None \<and> validPayload s"
  then show "playAudio s now c =
        Some (c\<lparr> started := started c @
                    [\<lparr> startTime = max (nextStartTime c) now, duration = bufferDuration s,
                       channelData = map decodeSample (int16Samples (map of_char s)) \<rparr>],
                 nextStartTime := max (nextStartTime c) now + bufferDuration s \<rparr>)"
    by (simp add: playAudio_valid)
next
  assume a: "outputContext c \<noteq> None \<and> validPayload s \<and> validPayload s' \<and>
    now' \<le> max (nextStartTime c) now + bufferDuration s"
  let ?c1 = "c\<lparr> started := started c @
                    [\<lparr> startTime = max (nextStartTime c) now, duration = bufferDuration s,
                       channelData = map decodeSample (int16Samples (map of_char s)) \<rparr>],
                 nextStartTime := max (nextStartTime c) now + bufferDuration s \<rparr>"
  from a have 1: "playAudio s now c = Some ?c1" by (simp add: playAudio_valid)
  from a have "outputContext ?c1 \<noteq> None" by simp
  from playAudio_valid [OF this, of s' now'] a
  have 2: "playAudio s' now' ?c1 =
     Some (?c1\<lparr> started := started ?c1 @
                 [\<lparr> startTime = max (nextStartTime ?c1) now', duration = bufferDuration s',
                    channelData = map decodeSample (int16Samples (map of_char s')) \<rparr>],
              nextStartTime := max (nextStartTime ?c1) now' + bufferDuration s' \<rparr>)"
    by simp
  from a have "max (nextStartTime ?c1) now' = max (nextStartTime c) now + bufferDuration s"
    by simp
  with 1 2 show "map timing (started (run c [OnMessage (Some s) now, OnMessage (Some s') now'])) =
        map timing (started c) @
          [(max (nextStartTime c) now, bufferDuration s),
           (max (nextStartTime c) now + bufferDuration s, bufferDuration s')]"
    by (simp add: timing_def)
qed

theorem playback_schedule_witness:
  "map timing (started (run (handle ConnectCalled newLiveClient)
      [OnMessage (Some ''abcd'') 5, OnMessage (Some ''abcdef'') 5])) =
     [(5, 2 / 24000), (5 + 2 / 24000, 3 / 24000)]"
proof -
  let ?c = "handle ConnectCalled newLiveClient"
  have h: "outputContext ?c \<noteq> None \<and> validPayload ''abcd'' \<and> validPayload ''abcdef'' \<and>
      5 \<le> max (nextStartTime ?c) 5 + bufferDuration ''abcd''"
    by (simp add: validPayload_def bufferDuration_def newLiveClient_def)
  have "map timing (started (run ?c [OnMessage (Some ''abcd'') 5, OnMessage (Some ''abcdef'') 5])) =
      map timing (started ?c) @
        [(max (nextStartTime ?c) 5, bufferDuration ''abcd''),
         (max (nextStartTime ?c) 5 + bufferDuration ''abcd'', bufferDuration ''abcdef'')]"
    using playback_schedule [where c = ?c and s = "''abcd''" and s' = "''abcdef''"
        and now = 5 and now' = 5 and es = "[]"] h by blast
  also have "\<dots> = [(5, 2 / 24000), (5 + 2 / 24000, 3 / 24000)]"
    by (simp add: bufferDuration_def newLiveClient_def)
  finally show ?thesis .
qed

section \<open>Properties of the video operation poller\<close>

lemma pollLoop_done: "isDone operation \<Longrightarrow> pollLoop operation rs trace = Some (Inr operation, trace)"
  by (cases rs) simp_all

lemma pollLoop_pending:
  "\<not> isDone operation \<Longrightarrow> \<forall>p \<in> set ps. \<not> isDone p \<Longrightarrow> isDone final \<Longrightarrow>
   pollLoop operation (map Inr ps @ Inr final # rest) trace =
     Some (Inr final, trace @ pollRounds (Suc (length ps)))"
proof (induction ps arbitrary: operation trace)
  case Nil
  then show ?case by (simp add: pollLoop_done pollRounds_def)
next
  case (Cons p ps)
  from Cons.prems have "\<not> isDone p" "\<forall>q \<in> set ps. \<not> isDone q" by simp_all
  from Cons.IH [OF this Cons.prems(3)] Cons.prems(1) show ?case
    by (simp add: pollRounds_def)
qed

lemma requeries_rounds: "requeries (pollRounds n) = n"
  by (induction n) (simp_all add: requeries_def pollRounds_def)

lemma failed_message:
  "mapError (RawError (Some ''Video generation failed.'')) = Error ''Video generation failed.''"
  by (simp add: mapError_def toLowerCase_def lower_char_def)

lemma generateVideo_polled:
  "generateVideos (videoPayload prompt config att) = Inr initial \<Longrightarrow>
   pollLoop initial responses [] = Some (Inr final, trace) \<Longrightarrow>
   generateVideo API_KEY generateVideos responses prompt config att
     = Some (deliver API_KEY final, trace)"
  by (simp add: generateVideo_def deliver_def failed_message split: option.splits)

text \<open>
  Claim C5, amended. When the operation returned by the first call is not yet done, and
  the first \<open>K\<close> answers to the re-queries are not done and the next one is,
  \<open>generateVideo\<close> performs exactly \<open>K + 1\<close> re-queries, each after a wait of 5000
  milliseconds, and returns the URI of the first generated video of that final answer with
  "&key=" and the API key appended; when that URI is absent or empty it throws the error
  "Video generation failed.". When the operation returned by the first call is already
  done, no re-query is made and the result is taken from that operation.
\<close>

theorem poll_until_done:
  assumes "generateVideos (videoPayload prompt config att) = Inr initial"
    and "\<forall>p \<in> set ps. \<not> isDone p"
    and "isDone final"
  shows "generateVideo API_KEY generateVideos (map Inr ps @ Inr final # rest) prompt config att =
           (if isDone initial then Some (deliver API_KEY initial, [])
            else Some (deliver API_KEY final, pollRounds (Suc (length ps)))) \<and>
         requeries (pollRounds (Suc (length ps))) = Suc (length ps)"
proof (cases "isDone initial")
  case True
  have "pollLoop initial (map Inr ps @ Inr final # rest) [] = Some (Inr initial, [])"
    using True by (rule pollLoop_done)
  from generateVideo_polled [where API_KEY = API_KEY and generateVideos = generateVideos and prompt = prompt and config = config and att = att, OF assms(1) this] True show ?thesis
    by (simp add: requeries_rounds)
next
  case False
  have "pollLoop initial (map Inr ps @ Inr final # rest) [] =
      Some (Inr final, pollRounds (Suc (length ps)))"
    using pollLoop_pending [OF False assms(2,3), of rest "[]"] by simp
  from generateVideo_polled [where API_KEY = API_KEY and generateVideos = generateVideos and prompt = prompt and config = config and att = att, OF assms(1) this] False show ?thesis
    by (simp add: requeries_rounds)
qed

theorem poll_until_done_witness:
  "generateVideo ''K1'' (\<lambda>_. Inr pendingOperation)
      (map Inr [pendingOperation, pendingOperation] @ Inr (finishedOperation (Some ''https://v.example/7?alt=media'')) # [])
      ''a red cube'' \<lparr> aspectRatio = None, imageSize = None, resolution = None \<rparr> None =
     Some (Inr ''https://v.example/7?alt=media&key=K1'',
           [Wait 5000, GetVideosOperation, Wait 5000, GetVideosOperation,
            Wait 5000, GetVideosOperation]) \<and>
   generateVideo ''K1'' (\<lambda>_. Inr pendingOperation)
      (map Inr [pendingOperation] @ Inr (finishedOperation None) # [])
      ''a red cube'' \<lparr> aspectRatio = None, imageSize = None, resolution = None \<rparr> None =
     Some (Inl (Error ''Video generation failed.''),
           [Wait 5000, GetVideosOperation, Wait 5000, GetVideosOperation])"
  using poll_until_done [where generateVideos = "\<lambda>_. Inr pendingOperation" and initial = pendingOperation
      and ps = "[pendingOperation, pendingOperation]" and final = "finishedOperation (Some ''https://v.example/7?alt=media'')"
      and rest = "[]" and API_KEY = "''K1''" and prompt = "''a red cube''" and att = None
      and config = "\<lparr> aspectRatio = None, imageSize = None, resolution = None \<rparr>"]
    poll_until_done [where generateVideos = "\<lambda>_. Inr pendingOperation" and initial = pendingOperation
      and ps = "[pendingOperation]" and final = "finishedOperation None"
      and rest = "[]" and API_KEY = "''K1''" and prompt = "''a red cube''" and att = None
      and config = "\<lparr> aspectRatio = None, imageSize = None, resolution = None \<rparr>"]
  by (simp add: pendingOperation_def finishedOperation_def isDone_def deliver_def videoUri_def pollRounds_def)

text \<open>
  Claim C5, as stated, fails: with a first operation that is already done, no re-query is
  made although the first answer in the sequence is done (\<open>K = 0\<close>, one re-query
  claimed); and the string returned is not the media reference of the final answer but
  that reference followed by "&key=" and the API key.
\<close>

theorem poll_until_done_counterexample:
  "generateVideo ''K1'' (\<lambda>_. Inr (finishedOperation (Some ''https://v.example/1'')))
      [Inr (finishedOperation (Some ''https://v.example/2''))]
      ''a red cube'' \<lparr> aspectRatio = None, imageSize = None, resolution = None \<rparr> None =
     Some (Inr ''https://v.example/1&key=K1'', []) \<and>
   requeries [] = 0 \<and>
   generateVideo ''K1'' (\<lambda>_. Inr pendingOperation)
      [Inr (finishedOperation (Some ''https://v.example/2''))]
      ''a red cube'' \<lparr> aspectRatio = None, imageSize = None, resolution = None \<rparr> None =
     Some (Inr ''https://v.example/2&key=K1'', [Wait 5000, GetVideosOperation]) \<and>
   ''https://v.example/2&key=K1'' \<noteq> ''https://v.example/2''"
  by (simp add: generateVideo_def pendingOperation_def finishedOperation_def isDone_def videoUri_def requeries_def)

end
